theory Spec2Isabelle
  imports Main "HOL-Library.List_Lexorder"
begin

section \<open>The IR read by the iterator\<close>

text \<open>
  Modelled from the spec: the classes \<^verbatim>\<open>Node\<close>, \<^verbatim>\<open>Block\<close> and \<^verbatim>\<open>Graph\<close> are declared
  in \<^verbatim>\<open>ir.h\<close>, which \<^verbatim>\<open>graph_iterator.h\<close> includes and which is not among the sources.
  The iterator reads them through \<^verbatim>\<open>Node::kind()\<close>, \<^verbatim>\<open>Node::blocks()\<close>,
  \<^verbatim>\<open>Node::owningBlock()\<close>, \<^verbatim>\<open>Block::nodes()\<close> and \<^verbatim>\<open>Block::owningNode()\<close> only
  (section 6 of the spec). It compares a kind with \<^verbatim>\<open>prim::If\<close> (the spec's Conditional)
  and with \<^verbatim>\<open>prim::Loop\<close> and \<^verbatim>\<open>prim::With\<close> (the spec's Region); every other kind
  (the spec's Plain) behaves alike.
\<close>

datatype kind = prim_If | prim_Loop | prim_With | prim_Other

text \<open>
  Modelled from the spec (section 3): a node has a kind and the ordered list of the
  blocks it owns; a block is the ordered sequence of its nodes and may be empty; a graph
  holds one root block, \<^verbatim>\<open>graph->block()\<close>; ownership is a tree, finite and without
  sharing. Nothing in the type makes an \<^verbatim>\<open>If\<close> own two blocks or a plain node own none:
  that is \<open>wf_graph\<close> below.
\<close>

datatype Node = Node (kind: kind) (blocks: "Node list list")

type_synonym Block = "Node list"

type_synonym Graph = Block

text \<open>
  Modelled from the spec: pointers. Ownership being a tree, a \<^verbatim>\<open>Block*\<close> is the way down
  to the block from the root, innermost step first: \<open>[]\<close> is the root block and
  \<open>(j, k) # p\<close> is child block \<open>k\<close> of node \<open>j\<close> of block \<open>p\<close>. A non-null \<^verbatim>\<open>Node*\<close> is a
  block and a position in its node list; \<^verbatim>\<open>nullptr\<close> is \<open>None\<close>. Two pointers are equal
  exactly when they lead to the same block or node.
\<close>

type_synonym block_ptr = "(nat \<times> nat) list"

type_synonym node_ptr = "block_ptr \<times> nat"

text \<open>
  What a call can raise. The first is the exception \<^verbatim>\<open>move_up\<close> throws; the second is
  the one \<^verbatim>\<open>blocks().at(k)\<close> throws; the last two mark where the model stops: a position
  or a pointer that is no node of the graph, used as one.
\<close>

datatype error =
    ChildBlocksError   \<comment> \<open>\<^verbatim>\<open>runtime_error("Node should not have had any child blocks.")\<close>\<close>
  | OutOfRange         \<comment> \<open>\<^verbatim>\<open>blocks().at(k)\<close> with \<open>k\<close> not below the number of blocks\<close>
  | EndSentinel        \<comment> \<open>the end position of a node list used as if it were a node\<close>
  | BadPointer         \<comment> \<open>a pointer of the model that leads to no block of the graph\<close>

text \<open>
  Modelled from the spec: \<^verbatim>\<open>block->nodes()\<close>, the node list of the block a pointer
  leads to; \<open>None\<close> for a pointer that leads to no block.
\<close>

fun nodes :: "Graph \<Rightarrow> block_ptr \<Rightarrow> Block option" where
  "nodes g [] = Some g"
| "nodes g ((j, k) # p) =
     (case nodes g p of
        None \<Rightarrow> None
      | Some ns \<Rightarrow>
          if j < length ns \<and> k < length (blocks (ns ! j))
          then Some (blocks (ns ! j) ! k) else None)"

text \<open>
  Modelled from the spec: \<^verbatim>\<open>block->owningNode()\<close>, the node that owns the block;
  \<^verbatim>\<open>nullptr\<close> for the root block.
\<close>

fun owningNode :: "block_ptr \<Rightarrow> node_ptr option" where
  "owningNode [] = None"
| "owningNode ((j, k) # p) = Some (p, j)"

text \<open>
  Modelled from the spec: \<^verbatim>\<open>node->owningBlock()\<close>, the block the node sits in; never
  \<^verbatim>\<open>nullptr\<close> for a node reached through a graph (section 6).
\<close>

definition owningBlock :: "node_ptr \<Rightarrow> block_ptr option" where
  "owningBlock n = Some (fst n)"

text \<open>The pointer to child block \<open>k\<close> of a node.\<close>

definition child :: "node_ptr \<Rightarrow> nat \<Rightarrow> block_ptr" where
  "child n k = (snd n, k) # fst n"

text \<open>
  Modelled from the spec: \<^verbatim>\<open>node->blocks()\<close> is the ordered list of the 0, 1 or 2 blocks
  a node owns; \<^verbatim>\<open>at(k)\<close> is the checked read of a C++ container, which throws when
  there is no block \<open>k\<close>.
\<close>

definition at :: "'a list \<Rightarrow> nat \<Rightarrow> error + 'a" where
  "at xs k = (if k < length xs then Inr (xs ! k) else Inl OutOfRange)"

text \<open>
  Modelled from the spec: the iterator type \<^verbatim>\<open>graph_node_list_iterator\<close> and the list
  returned by \<^verbatim>\<open>Block::nodes()\<close> are declared in \<^verbatim>\<open>ir.h\<close>, which is not among the
  sources. The spec (section 6) gives \<^verbatim>\<open>nodes()\<close> as an ordered, forward-iterable
  sequence with a well-defined end sentinel, and the iterator as written tells the end
  position (\<^verbatim>\<open>current_ == block->nodes().end()\<close>) from the default-constructed iterator
  (\<^verbatim>\<open>*current_ == nullptr\<close>). So an iterator is \<open>None\<close> when default-constructed and
  \<open>Some (b, i)\<close> at position \<open>i\<close> of block \<open>b\<close>, where \<open>i = length\<close> of the node list is
  \<^verbatim>\<open>end()\<close>; \<^verbatim>\<open>*it\<close> is the iterator's own pointer; \<^verbatim>\<open>begin()\<close> is position \<open>0\<close>
  (which is \<^verbatim>\<open>end()\<close> for an empty list) and \<^verbatim>\<open>++\<close> adds one. The spec gives the end
  sentinel neither a kind nor a successor: using it as a node is the error \<open>EndSentinel\<close>.
\<close>

type_synonym graph_node_list_iterator = "node_ptr option"

definition nodes_begin :: "block_ptr \<Rightarrow> graph_node_list_iterator" where
  "nodes_begin b = Some (b, 0)"

text \<open>
  The loop \<^verbatim>\<open>while (*it != from) ++it;\<close> started at \<^verbatim>\<open>begin()\<close> of block \<open>b\<close>: \<open>j\<close> is
  the position reached and \<open>n\<close> the number of nodes still ahead. Running off the list
  without meeting \<open>from\<close> is \<open>None\<close>.
\<close>

fun scan :: "block_ptr \<Rightarrow> node_ptr \<Rightarrow> nat \<Rightarrow> nat \<Rightarrow> nat option" where
  "scan b from j 0 = None"
| "scan b from j (Suc n) = (if (b, j) = from then Some j else scan b from (Suc j) n)"

section \<open>DepthFirstGraphNodeIterator\<close>

text \<open>The constructor: \<^verbatim>\<open>current_(graph->block()->nodes().begin())\<close>.\<close>

definition DepthFirstGraphNodeIterator :: "Graph \<Rightarrow> graph_node_list_iterator" where
  "DepthFirstGraphNodeIterator g = nodes_begin []"

text \<open>
  \<^verbatim>\<open>move_up\<close>: the result is the new \<^verbatim>\<open>current_\<close>, or the exception. The steps
  \<^verbatim>\<open>current_ = owning_node_it; ++current_; if (current_ == end) move_up(*owning_node_it);\<close>
  stand three times in the source and three times here. The test \<^verbatim>\<open>owning_node == nullptr\<close>
  of line 59 is dead code, the same test having returned at line 45; a null
  \<^verbatim>\<open>owning_node_block\<close> would be dereferenced next, which is \<open>BadPointer\<close>.
\<close>

function move_up :: "Graph \<Rightarrow> node_ptr \<Rightarrow> error + graph_node_list_iterator" where
  "move_up g from =
     (case owningBlock from of
        None \<Rightarrow> Inr None
      | Some parent_block \<Rightarrow>
          (case owningNode parent_block of
             None \<Rightarrow>
               (case nodes g parent_block of
                  None \<Rightarrow> Inl BadPointer
                | Some ns \<Rightarrow>
                    (case scan parent_block from 0 (length ns) of
                       None \<Rightarrow> Inl BadPointer
                     | Some c \<Rightarrow>
                         if Suc c = length ns then Inr None
                         else Inr (Some (parent_block, Suc c))))
           | Some owning_node \<Rightarrow>
               (case owningBlock owning_node of
                  None \<Rightarrow> Inl BadPointer
                | Some owning_node_block \<Rightarrow>
                    (case nodes g owning_node_block of
                       None \<Rightarrow> Inl BadPointer
                     | Some ns \<Rightarrow>
                         (case scan owning_node_block owning_node 0 (length ns) of
                            None \<Rightarrow> Inl BadPointer
                          | Some owning_node_it \<Rightarrow>
                              if kind (ns ! owning_node_it) = prim_If then
                                (case at (blocks (ns ! owning_node_it)) 0 of
                                   Inl e \<Rightarrow> Inl e
                                 | Inr then_block \<Rightarrow>
                                     (case at (blocks (ns ! owning_node_it)) 1 of
                                        Inl e \<Rightarrow> Inl e
                                      | Inr else_block \<Rightarrow>
                                          if parent_block = child owning_node 1 then
                                            (if Suc owning_node_it = length ns
                                             then move_up g (owning_node_block, owning_node_it)
                                             else Inr (Some (owning_node_block, Suc owning_node_it)))
                                          else if else_block \<noteq> [] then
                                            Inr (nodes_begin (child owning_node 1))
                                          else
                                            (if Suc owning_node_it = length ns
                                             then move_up g (owning_node_block, owning_node_it)
                                             else Inr (Some (owning_node_block, Suc owning_node_it)))))
                              else if kind (ns ! owning_node_it) = prim_Loop
                                      \<or> kind (ns ! owning_node_it) = prim_With then
                                (if Suc owning_node_it = length ns
                                 then move_up g (owning_node_block, owning_node_it)
                                 else Inr (Some (owning_node_block, Suc owning_node_it)))
                              else Inl ChildBlocksError)))))"
  by pat_completeness auto
termination
proof (relation "measure (\<lambda>(g, from). length (fst from))")
  show "wf (measure (\<lambda>(g, from). length (fst from)))"
    by simp
qed (auto simp: owningBlock_def elim: owningNode.elims)

declare move_up.simps [simp del]

text \<open>
  \<^verbatim>\<open>move_next\<close>: from \<^verbatim>\<open>current_\<close> to the new \<^verbatim>\<open>current_\<close>, or the exception. In
  \<open>Some (block, i)\<close> the first component is \<^verbatim>\<open>current_->owningBlock()\<close> and \<open>ns ! i\<close> is
  the node \<^verbatim>\<open>*current_\<close>. A \<^verbatim>\<open>Loop\<close> or \<^verbatim>\<open>With\<close> whose body is empty has no branch in
  the source: \<^verbatim>\<open>current_\<close> stays.
\<close>

definition move_next :: "Graph \<Rightarrow> graph_node_list_iterator \<Rightarrow> error + graph_node_list_iterator" where
  "move_next g current =
     (case current of
        None \<Rightarrow> Inr None
      | Some (block, i) \<Rightarrow>
          (case nodes g block of
             None \<Rightarrow> Inl BadPointer
           | Some ns \<Rightarrow>
               if length ns \<le> i then Inl EndSentinel
               else if kind (ns ! i) = prim_If then
                 (case at (blocks (ns ! i)) 0 of
                    Inl e \<Rightarrow> Inl e
                  | Inr then_block \<Rightarrow>
                      (case at (blocks (ns ! i)) 1 of
                         Inl e \<Rightarrow> Inl e
                       | Inr else_block \<Rightarrow>
                           if then_block \<noteq> [] then Inr (nodes_begin (child (block, i) 0))
                           else if else_block \<noteq> [] then Inr (nodes_begin (child (block, i) 1))
                           else move_up g (block, i)))
               else if kind (ns ! i) = prim_Loop \<or> kind (ns ! i) = prim_With then
                 (case at (blocks (ns ! i)) 0 of
                    Inl e \<Rightarrow> Inl e
                  | Inr body_block \<Rightarrow>
                      if body_block \<noteq> [] then Inr (nodes_begin (child (block, i) 0))
                      else Inr (Some (block, i)))
               else
                 (if Suc i = length ns then move_up g (block, i)
                  else Inr (Some (block, Suc i)))))"

text \<open>
  \<^verbatim>\<open>next\<close>: the pair of the returned \<^verbatim>\<open>Node*\<close> (\<open>None\<close> is \<^verbatim>\<open>nullptr\<close>) and the new
  \<^verbatim>\<open>current_\<close>.
\<close>

definition "next" :: "Graph \<Rightarrow> graph_node_list_iterator \<Rightarrow> error + (node_ptr option \<times> graph_node_list_iterator)" where
  "next g current =
     (case move_next g current of
        Inl e \<Rightarrow> Inl e
      | Inr current' \<Rightarrow> Inr (current, current'))"

text \<open>\<open>n\<close> calls of \<^verbatim>\<open>next\<close> in a row: what they returned, in order, and the last state.\<close>

fun calls :: "Graph \<Rightarrow> nat \<Rightarrow> graph_node_list_iterator \<Rightarrow> error + (node_ptr option list \<times> graph_node_list_iterator)" where
  "calls g 0 current = Inr ([], current)"
| "calls g (Suc n) current =
     (case next g current of
        Inl e \<Rightarrow> Inl e
      | Inr (r, current') \<Rightarrow>
          (case calls g n current' of
             Inl e \<Rightarrow> Inl e
           | Inr (rs, current'') \<Rightarrow> Inr (r # rs, current'')))"

section \<open>Well-formed graphs\<close>

text \<open>
  The invariants of the data model: an \<^verbatim>\<open>If\<close> owns exactly two blocks, a \<^verbatim>\<open>Loop\<close> or
  \<^verbatim>\<open>With\<close> exactly one, any other node none. Finiteness and acyclicity hold by the type.
\<close>

fun wf_node :: "Node \<Rightarrow> bool" where
  "wf_node (Node kd bs) =
     ((case kd of
         prim_If \<Rightarrow> length bs = 2
       | prim_Loop \<Rightarrow> length bs = 1
       | prim_With \<Rightarrow> length bs = 1
       | prim_Other \<Rightarrow> bs = [])
      \<and> list_all (list_all wf_node) bs)"

definition wf_graph :: "Graph \<Rightarrow> bool" where
  "wf_graph g = list_all wf_node g"

text \<open>The iterator stands at a node of the graph.\<close>

definition at_node :: "Graph \<Rightarrow> node_ptr \<Rightarrow> bool" where
  "at_node g n = (case nodes g (fst n) of None \<Rightarrow> False | Some ns \<Rightarrow> snd n < length ns)"

text \<open>The node a pointer leads to.\<close>

definition node_at :: "Graph \<Rightarrow> node_ptr \<Rightarrow> Node option" where
  "node_at g n =
     (case nodes g (fst n) of
        None \<Rightarrow> None
      | Some ns \<Rightarrow> if snd n < length ns then Some (ns ! snd n) else None)"

text \<open>The iterator is exhausted or stands at a node: never at the end of a block.\<close>

definition positioned :: "Graph \<Rightarrow> graph_node_list_iterator \<Rightarrow> bool" where
  "positioned g current = (case current of None \<Rightarrow> True | Some n \<Rightarrow> at_node g n)"

text \<open>
  The place of a node in the pre-order of the block tree: the indices on the way down
  from the root block, node index and block index in turn, and the node's own index
  last. Lists of numbers are compared lexicographically, a proper prefix first, so a
  control node comes before the nodes of its blocks, these before the node after it, and
  the nodes of a then-block before those of the else-block.
\<close>

fun path_key :: "block_ptr \<Rightarrow> nat list" where
  "path_key [] = []"
| "path_key ((j, k) # p) = path_key p @ [j, k]"

definition preorder_key :: "node_ptr \<Rightarrow> nat list" where
  "preorder_key n = path_key (fst n) @ [snd n]"

section \<open>Graphs of the scenarios\<close>

text \<open>A plain node: any kind that owns no block.\<close>

definition Plain :: Node where
  "Plain = Node prim_Other []"

text \<open>Root block \<open>[A, Loop(body = []), D]\<close>: scenario 6 of the spec.\<close>

definition empty_loop_graph :: Graph where
  "empty_loop_graph = [Plain, Node prim_Loop [[]], Plain]"

text \<open>Root block \<open>[With(body = [])]\<close>.\<close>

definition empty_with_graph :: Graph where
  "empty_with_graph = [Node prim_With [[]]]"

text \<open>Root block \<open>[Loop(body = [If(then = [], else = []), B]), D]\<close>.\<close>

definition empty_if_in_loop_graph :: Graph where
  "empty_if_in_loop_graph = [Node prim_Loop [[Node prim_If [[], []], Plain]], Plain]"

text \<open>Root block \<open>[If(then = [If(then = [], else = []), B], else = []), D]\<close>.\<close>

definition empty_if_in_then_graph :: Graph where
  "empty_if_in_then_graph = [Node prim_If [[Node prim_If [[], []], Plain], []], Plain]"

text \<open>Root block \<open>[If(then = [If(then = [], else = []), B], else = [C])]\<close>.\<close>

definition both_branches_graph :: Graph where
  "both_branches_graph = [Node prim_If [[Node prim_If [[], []], Plain], [Plain]]]"

text \<open>Root block \<open>[A, If(then = [], else = [C]), D]\<close>: scenario 4 of the spec.\<close>

definition empty_then_graph :: Graph where
  "empty_then_graph = [Plain, Node prim_If [[], [Plain]], Plain]"

text \<open>Root block \<open>[A, If(then = [B], else = []), D]\<close>.\<close>

definition empty_else_graph :: Graph where
  "empty_else_graph = [Plain, Node prim_If [[Plain], []], Plain]"

text \<open>Root block \<open>[A, If(then = [], else = []), D]\<close>.\<close>

definition empty_if_graph :: Graph where
  "empty_if_graph = [Plain, Node prim_If [[], []], Plain]"

text \<open>Root block \<open>[A, Loop(body = [B, With(body = [C])]), D]\<close>: scenario 5 of the spec.\<close>

definition nested_region_graph :: Graph where
  "nested_region_graph = [Plain, Node prim_Loop [[Plain, Node prim_With [[Plain]]]], Plain]"

text \<open>A malformed graph: the plain node \<open>A\<close> of root block \<open>[A]\<close> owns a block \<open>[B]\<close>.\<close>

definition plain_owner_graph :: Graph where
  "plain_owner_graph = [Node prim_Other [[Plain]]]"

section \<open>The climb, one level at a time\<close>

text \<open>The scan for a node of the block it starts in stops at that node's position.\<close>

lemma scan_eq: "scan b (b, i) j n = (if j \<le> i \<and> i < j + n then Some i else None)"
  by (induction n arbitrary: j) auto

text \<open>From a node of the root block: the next position there, or exhaustion.\<close>

lemma move_up_root:
  "move_up g ([], i) =
     (if i < length g then (if Suc i = length g then Inr None else Inr (Some ([], Suc i)))
      else Inl BadPointer)"
  by (subst move_up.simps) (simp add: owningBlock_def scan_eq)

text \<open>
  From a node of child block \<open>k\<close> of node \<open>j\<close> of block \<open>p\<close>. The position of \<open>from\<close>
  in its own block is not read.
\<close>

lemma move_up_child:
  "move_up g ((j, k) # p, i) =
     (case nodes g p of
        None \<Rightarrow> Inl BadPointer
      | Some ns \<Rightarrow>
          if j < length ns then
            (if kind (ns ! j) = prim_If then
               (case at (blocks (ns ! j)) 0 of
                  Inl e \<Rightarrow> Inl e
                | Inr then_block \<Rightarrow>
                    (case at (blocks (ns ! j)) 1 of
                       Inl e \<Rightarrow> Inl e
                     | Inr else_block \<Rightarrow>
                         if k \<noteq> 1 \<and> else_block \<noteq> [] then Inr (Some ((j, 1) # p, 0))
                         else if Suc j = length ns then move_up g (p, j)
                         else Inr (Some (p, Suc j))))
             else if kind (ns ! j) = prim_Loop \<or> kind (ns ! j) = prim_With then
               (if Suc j = length ns then move_up g (p, j) else Inr (Some (p, Suc j)))
             else Inl ChildBlocksError)
          else Inl BadPointer)"
  by (subst move_up.simps)
     (simp add: owningBlock_def child_def nodes_begin_def scan_eq split: option.splits sum.splits)

section \<open>Well-formed graphs: what every block holds\<close>

lemma wf_node_blocks: "wf_node n \<Longrightarrow> list_all (list_all wf_node) (blocks n)"
  by (cases n) simp

lemma wf_node_count:
  "wf_node n \<Longrightarrow>
     length (blocks n) =
       (case kind n of prim_If \<Rightarrow> 2 | prim_Loop \<Rightarrow> 1 | prim_With \<Rightarrow> 1 | prim_Other \<Rightarrow> 0)"
  by (cases n) (simp split: kind.splits)

lemma nodes_child:
  "nodes g ((j, k) # p) = Some ms \<Longrightarrow>
     \<exists>ns. nodes g p = Some ns \<and> j < length ns \<and> k < length (blocks (ns ! j))
        \<and> ms = blocks (ns ! j) ! k"
  by (auto split: option.splits if_splits)

lemma nodes_wf: "wf_graph g \<Longrightarrow> nodes g p = Some ns \<Longrightarrow> list_all wf_node ns"
proof (induction p arbitrary: ns)
  case Nil
  then show ?case by (simp add: wf_graph_def)
next
  case (Cons s p)
  obtain j k where s: "s = (j, k)" by (cases s)
  from Cons.prems(2) s obtain ms where ms: "nodes g p = Some ms" "j < length ms"
    "k < length (blocks (ms ! j))" "ns = blocks (ms ! j) ! k"
    using nodes_child by blast
  from Cons.IH [OF Cons.prems(1) ms(1)] ms(2) have "wf_node (ms ! j)"
    by (simp add: list_all_length)
  then have "list_all (list_all wf_node) (blocks (ms ! j))"
    by (rule wf_node_blocks)
  with ms(3,4) show ?case
    by (simp add: list_all_length)
qed

section \<open>The iterator stays on nodes\<close>

text \<open>
  In a well-formed graph a climb from a node raises nothing and ends at a node or in
  exhaustion. Induction on the depth of the block climbed out of.
\<close>

lemma move_up_ok:
  "wf_graph g \<Longrightarrow> at_node g (b, i) \<Longrightarrow> \<exists>c. move_up g (b, i) = Inr c \<and> positioned g c"
proof (induction b arbitrary: i)
  case Nil
  then show ?case
    by (auto simp: move_up_root at_node_def positioned_def)
next
  case (Cons s p)
  obtain j k where s: "s = (j, k)" by (cases s)
  from Cons.prems(2) s obtain ms ns where ns: "nodes g ((j, k) # p) = Some ms" "i < length ms"
    and ms: "nodes g p = Some ns" "j < length ns" "k < length (blocks (ns ! j))"
      "ms = blocks (ns ! j) ! k"
    by (auto simp: at_node_def split: option.splits if_splits)
  have wfn: "wf_node (ns ! j)"
    using nodes_wf [OF Cons.prems(1) ms(1)] ms(2) by (simp add: list_all_length)
  have up: "\<exists>c. move_up g (p, j) = Inr c \<and> positioned g c"
    using Cons.IH [OF Cons.prems(1), of j] ms(1,2) by (simp add: at_node_def)
  have nxt: "Suc j \<noteq> length ns \<Longrightarrow> positioned g (Some (p, Suc j))"
    using ms(1,2) by (simp add: positioned_def at_node_def)
  have els: "blocks (ns ! j) ! 1 \<noteq> [] \<Longrightarrow> length (blocks (ns ! j)) = 2 \<Longrightarrow>
      positioned g (Some ((j, 1) # p, 0))"
    using ms(1,2) by (simp add: positioned_def at_node_def)
  show ?case
    using wfn ms up nxt els wf_node_count [OF wfn] unfolding s
    by (cases "kind (ns ! j)") (auto simp: move_up_child at_def)
qed

lemma move_next_ok:
  assumes wf: "wf_graph g" and an: "at_node g n"
  shows "\<exists>c. move_next g (Some n) = Inr c \<and> positioned g c"
proof -
  obtain b i where n: "n = (b, i)" by (cases n)
  from an n obtain ns where ns: "nodes g b = Some ns" "i < length ns"
    by (auto simp: at_node_def split: option.splits)
  have wfn: "wf_node (ns ! i)"
    using nodes_wf [OF wf ns(1)] ns(2) by (simp add: list_all_length)
  have up: "\<exists>c. move_up g (b, i) = Inr c \<and> positioned g c"
    using move_up_ok [OF wf] an n by simp
  have nxt: "Suc i \<noteq> length ns \<Longrightarrow> positioned g (Some (b, Suc i))"
    using ns by (simp add: positioned_def at_node_def)
  have here: "positioned g (Some (b, i))"
    using ns by (simp add: positioned_def at_node_def)
  have dn: "\<And>k. k < length (blocks (ns ! i)) \<Longrightarrow> blocks (ns ! i) ! k \<noteq> [] \<Longrightarrow>
      positioned g (Some ((i, k) # b, 0))"
    using ns by (simp add: positioned_def at_node_def)
  show ?thesis
    using ns up nxt here dn [of 0] dn [of 1] wf_node_count [OF wfn] unfolding n
    by (cases "kind (ns ! i)") (auto simp: move_next_def at_def child_def nodes_begin_def)
qed

lemma next_ok:
  assumes "wf_graph g" and "positioned g c"
  shows "\<exists>c'. next g c = Inr (c, c') \<and> positioned g c'"
proof (cases c)
  case None
  then show ?thesis by (simp add: next_def move_next_def positioned_def)
next
  case (Some n)
  with assms move_next_ok [of g n] show ?thesis
    by (auto simp: next_def positioned_def)
qed

lemma calls_ok:
  "wf_graph g \<Longrightarrow> positioned g c \<Longrightarrow> \<exists>rs c'. calls g n c = Inr (rs, c') \<and> positioned g c'"
proof (induction n arbitrary: c)
  case 0
  then show ?case by simp
next
  case (Suc n)
  from next_ok [OF Suc.prems] obtain c1 where c1: "next g c = Inr (c, c1)" "positioned g c1"
    by blast
  from Suc.IH [OF Suc.prems(1) c1(2)] obtain rs c' where
    "calls g n c1 = Inr (rs, c')" "positioned g c'"
    by blast
  with c1 show ?case by simp
qed

text \<open>Once exhausted, every call returns \<^verbatim>\<open>nullptr\<close> and changes nothing.\<close>

lemma calls_exhausted: "calls g n None = Inr (replicate n None, None)"
  by (induction n) (simp_all add: next_def move_next_def)

text \<open>Over an empty root block the first call already meets the end sentinel.\<close>

lemma calls_empty_root:
  "calls [] n (DepthFirstGraphNodeIterator []) =
     (if n = 0 then Inr ([], Some ([], 0)) else Inl EndSentinel)"
  by (cases n)
     (simp_all add: DepthFirstGraphNodeIterator_def nodes_begin_def next_def move_next_def)

text \<open>The facts that evaluate the iterator on a given graph.\<close>

lemmas run_simps =
  DepthFirstGraphNodeIterator_def nodes_begin_def next_def move_next_def
  move_up_root move_up_child at_def child_def

lemmas graph_simps =
  Plain_def wf_graph_def at_node_def node_at_def positioned_def

section \<open>The iterator never goes backwards\<close>

lemma append_less: "(xs :: nat list) @ ys < xs @ zs \<longleftrightarrow> ys < zs"
  by (induction xs) simp_all

lemma append_le: "(xs :: nat list) @ ys \<le> xs @ zs \<longleftrightarrow> ys \<le> zs"
  by (induction xs) simp_all

text \<open>A climb from a node ends behind that node and behind everything below it.\<close>

lemma move_up_beyond:
  "wf_graph g \<Longrightarrow> at_node g (b, i) \<Longrightarrow> move_up g (b, i) = Inr (Some r) \<Longrightarrow>
     preorder_key (b, i) @ s < preorder_key r"
proof (induction b arbitrary: i s)
  case Nil
  then show ?case
    by (auto simp: move_up_root preorder_key_def split: if_splits)
next
  case (Cons a p)
  obtain j k where a: "a = (j, k)" by (cases a)
  from Cons.prems(2) a obtain ms ns where ns: "nodes g ((j, k) # p) = Some ms" "i < length ms"
    and ms: "nodes g p = Some ns" "j < length ns" "k < length (blocks (ns ! j))"
      "ms = blocks (ns ! j) ! k"
    by (auto simp: at_node_def split: option.splits if_splits)
  have wfn: "wf_node (ns ! j)"
    using nodes_wf [OF Cons.prems(1) ms(1)] ms(2) by (simp add: list_all_length)
  have an: "at_node g (p, j)"
    using ms(1,2) by (simp add: at_node_def)
  have up: "move_up g (p, j) = Inr (Some r) \<Longrightarrow>
      preorder_key (p, j) @ ([k, i] @ s) < preorder_key r"
    using Cons.IH [OF Cons.prems(1) an] by blast
  have sib: "path_key p @ [j, k, i] @ s < path_key p @ [Suc j]"
    by (simp add: append_less)
  have els: "k < 2 \<Longrightarrow> k \<noteq> Suc 0 \<Longrightarrow>
      path_key p @ [j, k, i] @ s < path_key p @ [j, 1, 0]"
    by (simp add: append_less)
  from Cons.prems(3) show ?case
    using ms wfn up sib els wf_node_count [OF wfn] unfolding a
    by (cases "kind (ns ! j)")
       (auto simp: move_up_child at_def preorder_key_def split: if_splits)
qed

text \<open>\<^verbatim>\<open>move_next\<close> stays (on an empty \<^verbatim>\<open>Loop\<close> or \<^verbatim>\<open>With\<close>) or goes forward.\<close>

lemma move_next_forward:
  assumes wf: "wf_graph g" and an: "at_node g n" and mv: "move_next g (Some n) = Inr (Some r)"
  shows "preorder_key n \<le> preorder_key r"
proof -
  obtain b i where n: "n = (b, i)" by (cases n)
  from an n obtain ns where ns: "nodes g b = Some ns" "i < length ns"
    by (auto simp: at_node_def split: option.splits)
  have wfn: "wf_node (ns ! i)"
    using nodes_wf [OF wf ns(1)] ns(2) by (simp add: list_all_length)
  have up: "move_up g (b, i) = Inr (Some r) \<Longrightarrow> preorder_key (b, i) \<le> preorder_key r"
    using move_up_beyond [OF wf, of b i r "[]"] an n by simp
  have dn: "\<And>k. path_key b @ [i] \<le> path_key b @ [i, k, 0]"
    by (simp add: append_le)
  have sib: "path_key b @ [i] \<le> path_key b @ [Suc i]"
    by (simp add: append_le)
  from mv show ?thesis
    using ns up dn sib wf_node_count [OF wfn] unfolding n
    by (cases "kind (ns ! i)")
       (auto simp: move_next_def at_def child_def nodes_begin_def preorder_key_def
             split: if_splits)
qed

text \<open>So the nodes that a run of calls returns stand in pre-order, repeats apart.\<close>

lemma calls_forward:
  "wf_graph g \<Longrightarrow> at_node g n \<Longrightarrow> calls g m (Some n) = Inr (rs, c) \<Longrightarrow>
     (\<forall>a. Some a \<in> set rs \<longrightarrow> preorder_key n \<le> preorder_key a)
     \<and> (\<forall>x y a e. x \<le> y \<longrightarrow> y < length rs \<longrightarrow> rs ! x = Some a \<longrightarrow> rs ! y = Some e
           \<longrightarrow> preorder_key a \<le> preorder_key e)"
proof (induction m arbitrary: n rs c)
  case 0
  then show ?case by simp
next
  case (Suc m)
  from move_next_ok [OF Suc.prems(1,2)] obtain c1 where
    c1: "move_next g (Some n) = Inr c1" "positioned g c1"
    by blast
  from Suc.prems(3) c1(1) obtain rs' where
    rs': "calls g m c1 = Inr (rs', c)" "rs = Some n # rs'"
    by (auto simp: next_def split: sum.splits)
  show ?case
  proof (cases c1)
    case None
    with rs'(1) have "rs' = replicate m None"
      by (simp add: calls_exhausted)
    with rs'(2) show ?thesis
      by (auto simp: nth_Cons split: nat.splits)
  next
    case (Some n1)
    with c1 have an1: "at_node g n1" and le: "preorder_key n \<le> preorder_key n1"
      using move_next_forward [OF Suc.prems(1,2), of n1] by (simp_all add: positioned_def)
    from Suc.IH [OF Suc.prems(1) an1] rs'(1) Some have
      ih1: "\<forall>a. Some a \<in> set rs' \<longrightarrow> preorder_key n1 \<le> preorder_key a" and
      ih2: "\<forall>x y a e. x \<le> y \<longrightarrow> y < length rs' \<longrightarrow> rs' ! x = Some a \<longrightarrow> rs' ! y = Some e
              \<longrightarrow> preorder_key a \<le> preorder_key e"
      by blast+
    have p1: "\<forall>a. Some a \<in> set rs \<longrightarrow> preorder_key n \<le> preorder_key a"
      using ih1 le rs'(2) by (auto intro: order_trans)
    have p2: "preorder_key a \<le> preorder_key e"
      if "x \<le> y" "y < length rs" "rs ! x = Some a" "rs ! y = Some e" for x y a e
    proof (cases x)
      case 0
      with that(3) rs'(2) have "a = n" by simp
      moreover have "Some e \<in> set rs"
        using that(2,4) nth_mem by metis
      ultimately show ?thesis using p1 by blast
    next
      case (Suc x')
      with that(1) obtain y' where y': "y = Suc y'" "x' \<le> y'"
        by (cases y) auto
      from that Suc y'(1) rs'(2) have
        "y' < length rs'" "rs' ! x' = Some a" "rs' ! y' = Some e"
        by simp_all
      with ih2 y'(2) show ?thesis by blast
    qed
    from p1 p2 show ?thesis by blast
  qed
qed

text \<open>
  In particular no node of an else-block is returned before, or in place of, a node of
  the then-block beside it: where both are returned, the then-block node comes first.
  Whether the then-block node is returned at all is another matter.
\<close>

lemma else_never_before_then:
  assumes wf: "wf_graph g" and ne: "g \<noteq> []"
    and run: "calls g m (DepthFirstGraphNodeIterator g) = Inr (rs, c)"
    and x: "x < length rs" "rs ! x = Some ((j, 1) # p, i')"
    and y: "y < length rs" "rs ! y = Some ((j, 0) # p, i)"
  shows "y < x"
proof (rule ccontr)
  assume "\<not> y < x"
  then have xy: "x \<le> y" by simp
  from ne have an: "at_node g ([], 0)"
    by (simp add: at_node_def)
  from calls_forward [OF wf an] run have
    "\<forall>x y a e. x \<le> y \<longrightarrow> y < length rs \<longrightarrow> rs ! x = Some a \<longrightarrow> rs ! y = Some e
       \<longrightarrow> preorder_key a \<le> preorder_key e"
    by (simp add: DepthFirstGraphNodeIterator_def nodes_begin_def)
  with xy x y have "preorder_key ((j, 1) # p, i') \<le> preorder_key ((j, 0) # p, i)"
    by blast
  then show False
    by (simp add: preorder_key_def append_le)
qed

section \<open>The claims\<close>

text \<open>
  Nodes are named by their pointers: \<open>([], i)\<close> is node \<open>i\<close> of the root block and
  \<open>([(j, k)], i)\<close> is node \<open>i\<close> of child block \<open>k\<close> of root node \<open>j\<close>. A returned \<open>None\<close> is
  the exhaustion signal \<^verbatim>\<open>nullptr\<close>.
\<close>

text \<open>
  C1. The claim: when \<^verbatim>\<open>next()\<close> returns a \<^verbatim>\<open>Loop\<close> or \<^verbatim>\<open>With\<close> node whose body is
  empty, the cursor climbs from that node, so that \<open>[A, Region(body = []), D]\<close> yields
  \<open>A, R, D\<close>, exhausted. The source does not: \<^verbatim>\<open>move_next\<close> has no \<^verbatim>\<open>else\<close> for the empty
  body and leaves \<^verbatim>\<open>current_\<close> where it is. On that graph four calls return \<open>A, R, R, R\<close>
  and the cursor still stands at \<open>R\<close>, where the climb the claim asks for would have led
  to \<open>D\<close>.
\<close>

theorem empty_region_body_stalls:
  "wf_graph empty_loop_graph
   \<and> calls empty_loop_graph 4 (DepthFirstGraphNodeIterator empty_loop_graph)
       = Inr ([Some ([], 0), Some ([], 1), Some ([], 1), Some ([], 1)], Some ([], 1))
   \<and> move_next empty_loop_graph (Some ([], 1)) = Inr (Some ([], 1))
   \<and> move_up empty_loop_graph ([], 1) = Inr (Some ([], 2))"
  by (simp add: empty_loop_graph_def eval_nat_numeral run_simps graph_simps)

text \<open>
  C2. The claim: the nodes returned until exhaustion are all nodes of the graph, each
  once, as many as the graph has. On \<open>[Loop(body = [If(then = [], else = []), B]), D]\<close>
  the source returns the loop, the \<^verbatim>\<open>If\<close>, \<open>D\<close> and then \<^verbatim>\<open>nullptr\<close>: three of four
  nodes. \<open>B\<close>, node \<open>1\<close> of the loop body, is never returned: \<^verbatim>\<open>move_next\<close> calls
  \<^verbatim>\<open>move_up\<close> on the \<^verbatim>\<open>If\<close> with two empty blocks, and \<^verbatim>\<open>move_up\<close> leaves a block that
  is not the root block without looking for the nodes after \<open>from\<close>. And on
  \<open>[A, Loop(body = []), D]\<close> any number of calls returns \<open>A\<close> and then the loop again and
  again, never \<open>D\<close>.
\<close>

theorem nodes_after_empty_if_not_emitted:
  "wf_graph empty_if_in_loop_graph
   \<and> at_node empty_if_in_loop_graph ([(0, 0)], 1)
   \<and> calls empty_if_in_loop_graph 4 (DepthFirstGraphNodeIterator empty_if_in_loop_graph)
       = Inr ([Some ([], 0), Some ([(0, 0)], 0), Some ([], 1), None], None)
   \<and> at_node empty_loop_graph ([], 2)
   \<and> calls empty_loop_graph (Suc n) (DepthFirstGraphNodeIterator empty_loop_graph)
       = Inr (Some ([], 0) # replicate n (Some ([], 1)), Some ([], 1))"
proof -
  have "calls empty_loop_graph n (Some ([], 1)) = Inr (replicate n (Some ([], 1)), Some ([], 1))"
    by (induction n) (simp_all add: empty_loop_graph_def run_simps)
  then have "calls empty_loop_graph (Suc n) (DepthFirstGraphNodeIterator empty_loop_graph)
       = Inr (Some ([], 0) # replicate n (Some ([], 1)), Some ([], 1))"
    by (simp add: empty_loop_graph_def run_simps Plain_def)
  moreover have "at_node empty_loop_graph ([], 2)"
    by (simp add: empty_loop_graph_def graph_simps)
  moreover have "wf_graph empty_if_in_loop_graph
     \<and> at_node empty_if_in_loop_graph ([(0, 0)], 1)
     \<and> calls empty_if_in_loop_graph 4 (DepthFirstGraphNodeIterator empty_if_in_loop_graph)
         = Inr ([Some ([], 0), Some ([(0, 0)], 0), Some ([], 1), None], None)"
    by (simp add: empty_if_in_loop_graph_def eval_nat_numeral run_simps graph_simps)
  ultimately show ?thesis
    by blast
qed

text \<open>
  C3. The claim: every node in the child blocks of a control node \<open>N\<close> is returned after
  \<open>N\<close> and before the node that follows \<open>N\<close> in its block. On
  \<open>[If(then = [If(then = [], else = []), B], else = []), D]\<close> the source returns the outer
  \<^verbatim>\<open>If\<close>, the inner \<^verbatim>\<open>If\<close>, \<open>D\<close> and then \<^verbatim>\<open>nullptr\<close>: \<open>B\<close>, node \<open>1\<close> of the then-block,
  is not returned before \<open>D\<close>, nor ever.
\<close>

theorem child_block_node_not_before_sibling:
  "wf_graph empty_if_in_then_graph
   \<and> at_node empty_if_in_then_graph ([(0, 0)], 1)
   \<and> calls empty_if_in_then_graph 4 (DepthFirstGraphNodeIterator empty_if_in_then_graph)
       = Inr ([Some ([], 0), Some ([(0, 0)], 0), Some ([], 1), None], None)"
  by (simp add: empty_if_in_then_graph_def eval_nat_numeral run_simps graph_simps)

text \<open>
  C4. The claim: for an \<^verbatim>\<open>If\<close> with both blocks non-empty, every node of the then-block
  is returned before every node of the else-block. On
  \<open>[If(then = [If(then = [], else = []), B], else = [C])]\<close> the source returns the outer
  \<^verbatim>\<open>If\<close>, the inner \<^verbatim>\<open>If\<close>, \<open>C\<close> and then \<^verbatim>\<open>nullptr\<close>: the climb from the inner \<^verbatim>\<open>If\<close>
  takes the then-block for exhausted and enters the else-block, and \<open>B\<close> of the
  then-block is not returned before \<open>C\<close>, nor ever. The order of the nodes that are
  returned is right (\<open>else_never_before_then\<close>); what fails is that every then-block
  node is among them.
\<close>

theorem then_node_skipped_before_else:
  "wf_graph both_branches_graph
   \<and> nodes both_branches_graph [(0, 0)] = Some [Node prim_If [[], []], Plain]
   \<and> nodes both_branches_graph [(0, 1)] = Some [Plain]
   \<and> calls both_branches_graph 4 (DepthFirstGraphNodeIterator both_branches_graph)
       = Inr ([Some ([], 0), Some ([(0, 0)], 0), Some ([(0, 1)], 0), None], None)"
  by (simp add: both_branches_graph_def eval_nat_numeral run_simps wf_graph_def Plain_def)

text \<open>
  C5. After \<^verbatim>\<open>next()\<close> returns an \<^verbatim>\<open>If\<close> node, the cursor stands at the first node of
  the then-block if that block has a node; otherwise at the first node of the else-block
  if that one has a node; otherwise it is where the climb \<^verbatim>\<open>move_up\<close> from the \<^verbatim>\<open>If\<close>
  node puts it.
\<close>

theorem conditional_descends_then_else_climb:
  "node_at g (b, i) = Some nd \<Longrightarrow> kind nd = prim_If \<Longrightarrow> blocks nd = [then_block, else_block] \<Longrightarrow>
     nodes g (child (b, i) 0) = Some then_block
     \<and> nodes g (child (b, i) 1) = Some else_block
     \<and> next g (Some (b, i)) =
         (if then_block \<noteq> [] then Inr (Some (b, i), nodes_begin (child (b, i) 0))
          else if else_block \<noteq> [] then Inr (Some (b, i), nodes_begin (child (b, i) 1))
          else (case move_up g (b, i) of Inl e \<Rightarrow> Inl e | Inr c \<Rightarrow> Inr (Some (b, i), c)))"
  by (auto simp: node_at_def next_def move_next_def at_def child_def split: option.splits if_splits)

text \<open>
  The three cases at \<open>[A, If(then, else), D]\<close> with the then-block empty, the else-block
  empty and both empty; and scenario 4 of the spec: \<open>A, Cond, C, D\<close>, exhausted.
\<close>

theorem conditional_descends_then_else_climb_witness:
  "node_at empty_then_graph ([], 1) = Some (Node prim_If [[], [Plain]])
   \<and> next empty_then_graph (Some ([], 1)) = Inr (Some ([], 1), Some ([(1, 1)], 0))
   \<and> node_at empty_else_graph ([], 1) = Some (Node prim_If [[Plain], []])
   \<and> next empty_else_graph (Some ([], 1)) = Inr (Some ([], 1), Some ([(1, 0)], 0))
   \<and> node_at empty_if_graph ([], 1) = Some (Node prim_If [[], []])
   \<and> next empty_if_graph (Some ([], 1)) = Inr (Some ([], 1), Some ([], 2))
   \<and> calls empty_then_graph 5 (DepthFirstGraphNodeIterator empty_then_graph)
       = Inr ([Some ([], 0), Some ([], 1), Some ([(1, 1)], 0), Some ([], 2), None], None)"
proof -
  have a: "node_at empty_then_graph ([], 1) = Some (Node prim_If [[], [Plain]])"
    by (simp add: empty_then_graph_def node_at_def)
  have b: "node_at empty_else_graph ([], 1) = Some (Node prim_If [[Plain], []])"
    by (simp add: empty_else_graph_def node_at_def)
  have c: "node_at empty_if_graph ([], 1) = Some (Node prim_If [[], []])"
    by (simp add: empty_if_graph_def node_at_def)
  have up: "move_up empty_if_graph ([], 1) = Inr (Some ([], 2))"
    by (simp add: empty_if_graph_def move_up_root)
  have run: "calls empty_then_graph 5 (DepthFirstGraphNodeIterator empty_then_graph)
       = Inr ([Some ([], 0), Some ([], 1), Some ([(1, 1)], 0), Some ([], 2), None], None)"
    by (simp add: empty_then_graph_def eval_nat_numeral run_simps Plain_def)
  from conditional_descends_then_else_climb [OF a, of "[]" "[Plain]"]
    conditional_descends_then_else_climb [OF b, of "[Plain]" "[]"]
    conditional_descends_then_else_climb [OF c, of "[]" "[]"]
    a b c up run
  show ?thesis
    by (simp add: nodes_begin_def child_def)
qed

text \<open>
  C6. The claim: repeated calls of \<^verbatim>\<open>next()\<close> reach the exhaustion signal after finitely
  many calls, and no graph makes \<^verbatim>\<open>next()\<close> return the same node forever. The climb
  \<^verbatim>\<open>move_up\<close> does terminate (it is a total function here, by the depth of the block),
  but on \<open>[With(body = [])]\<close> every call of \<^verbatim>\<open>next()\<close>, however many, returns the \<^verbatim>\<open>With\<close>
  node and leaves the cursor on it.
\<close>

theorem empty_region_never_exhausted:
  "wf_graph empty_with_graph
   \<and> calls empty_with_graph n (DepthFirstGraphNodeIterator empty_with_graph)
       = Inr (replicate n (Some ([], 0)), Some ([], 0))"
proof -
  have "calls empty_with_graph n (Some ([], 0)) = Inr (replicate n (Some ([], 0)), Some ([], 0))"
    by (induction n) (simp_all add: empty_with_graph_def run_simps)
  then show ?thesis
    by (simp add: DepthFirstGraphNodeIterator_def nodes_begin_def)
       (simp add: empty_with_graph_def wf_graph_def)
qed

text \<open>
  C7. Once \<^verbatim>\<open>next()\<close> has returned the exhaustion signal, the cursor is the
  default-constructed iterator, and every later call returns the exhaustion signal and
  leaves the cursor as it is. This holds on every graph, well-formed or not.
\<close>

theorem exhausted_is_terminal:
  "next g c = Inr (None, c') \<Longrightarrow>
     c' = None \<and> next g c' = Inr (None, c') \<and> calls g n c' = Inr (replicate n None, None)"
proof -
  assume h: "next g c = Inr (None, c')"
  then have "c = None"
    by (auto simp: next_def split: sum.splits)
  with h have "c' = None"
    by (simp add: next_def move_next_def)
  then show ?thesis
    by (simp add: calls_exhausted) (simp add: next_def move_next_def)
qed

text \<open>On the graph \<open>[A]\<close>: the call after \<open>A\<close> signals exhaustion, and so do three more.\<close>

theorem exhausted_is_terminal_witness:
  "next [Plain] (Some ([], 0)) = Inr (Some ([], 0), None)
   \<and> next [Plain] None = Inr (None, None)
   \<and> calls [Plain] 3 None = Inr ([None, None, None], None)"
proof -
  have h: "next [Plain] None = Inr (None, None)"
    by (simp add: run_simps)
  have "replicate 3 None = [None, None, None]"
    by (simp add: eval_nat_numeral)
  with exhausted_is_terminal [OF h, of 3] h show ?thesis
    by (simp add: run_simps Plain_def)
qed

text \<open>
  C8. The claim: over an empty root block a fresh cursor is already exhausted and the
  first \<^verbatim>\<open>next()\<close> returns the exhaustion signal. The constructor stores
  \<^verbatim>\<open>nodes().begin()\<close> as it is, which for the empty root block is its end position and
  not the default-constructed iterator; only \<^verbatim>\<open>move_up\<close> turns an end position into
  that. So the first call does not return \<^verbatim>\<open>nullptr\<close>.
\<close>

theorem empty_root_not_exhausted:
  "wf_graph []
   \<and> DepthFirstGraphNodeIterator [] = Some ([], 0)
   \<and> nodes [] [] = Some []
   \<and> (\<forall>c. next [] (DepthFirstGraphNodeIterator []) \<noteq> Inr (None, c))"
  by (simp add: run_simps graph_simps)

text \<open>
  C9. A climb out of a block whose owning node is neither \<^verbatim>\<open>If\<close> nor \<^verbatim>\<open>Loop\<close> nor
  \<^verbatim>\<open>With\<close> raises \<^verbatim>\<open>runtime_error("Node should not have had any child blocks.")\<close>,
  whatever the node climbed from. In a well-formed graph a climb from any node returns
  a cursor, and no sequence of calls of \<^verbatim>\<open>next()\<close> on a fresh cursor raises that error.
\<close>

theorem climb_owner_kind:
  "(node_at g (p, j) = Some owner \<longrightarrow>
      kind owner \<noteq> prim_If \<and> kind owner \<noteq> prim_Loop \<and> kind owner \<noteq> prim_With \<longrightarrow>
      move_up g ((j, k) # p, i) = Inl ChildBlocksError)
   \<and> (wf_graph g \<longrightarrow> at_node g from \<longrightarrow> (\<exists>c. move_up g from = Inr c))
   \<and> (wf_graph g \<longrightarrow> calls g n (DepthFirstGraphNodeIterator g) \<noteq> Inl ChildBlocksError)"
proof (intro conjI impI)
  assume "node_at g (p, j) = Some owner"
    and "kind owner \<noteq> prim_If \<and> kind owner \<noteq> prim_Loop \<and> kind owner \<noteq> prim_With"
  then show "move_up g ((j, k) # p, i) = Inl ChildBlocksError"
    by (auto simp: move_up_child node_at_def split: option.splits if_splits)
next
  assume "wf_graph g" and "at_node g from"
  then show "\<exists>c. move_up g from = Inr c"
    using move_up_ok [of g "fst from" "snd from"] by auto
next
  assume wf: "wf_graph g"
  show "calls g n (DepthFirstGraphNodeIterator g) \<noteq> Inl ChildBlocksError"
  proof (cases "g = []")
    case True
    then show ?thesis by (simp add: calls_empty_root)
  next
    case False
    then have "positioned g (DepthFirstGraphNodeIterator g)"
      by (simp add: DepthFirstGraphNodeIterator_def nodes_begin_def positioned_def at_node_def)
    from calls_ok [OF wf this, of n] show ?thesis by auto
  qed
qed

text \<open>
  In the malformed graph where the plain node \<open>A\<close> owns the block \<open>[B]\<close>, the climb from
  \<open>B\<close> raises, and so does \<^verbatim>\<open>next()\<close> with the cursor at \<open>B\<close>. In the well-formed graph
  of scenario 5 the climb from \<open>C\<close>, two levels deep, returns the cursor at \<open>D\<close>.
\<close>

theorem climb_owner_kind_witness:
  "node_at plain_owner_graph ([], 0) = Some (Node prim_Other [[Plain]])
   \<and> at_node plain_owner_graph ([(0, 0)], 0)
   \<and> move_up plain_owner_graph ([(0, 0)], 0) = Inl ChildBlocksError
   \<and> next plain_owner_graph (Some ([(0, 0)], 0)) = Inl ChildBlocksError
   \<and> wf_graph nested_region_graph
   \<and> at_node nested_region_graph ([(1, 0), (1, 0)], 0)
   \<and> move_up nested_region_graph ([(1, 0), (1, 0)], 0) = Inr (Some ([], 2))
   \<and> calls nested_region_graph 7 (DepthFirstGraphNodeIterator nested_region_graph)
       \<noteq> Inl ChildBlocksError"
proof -
  have a: "node_at plain_owner_graph ([], 0) = Some (Node prim_Other [[Plain]])"
    by (simp add: plain_owner_graph_def node_at_def)
  have b: "kind (Node prim_Other [[Plain]]) \<noteq> prim_If
      \<and> kind (Node prim_Other [[Plain]]) \<noteq> prim_Loop
      \<and> kind (Node prim_Other [[Plain]]) \<noteq> prim_With"
    by simp
  have c: "wf_graph nested_region_graph"
    by (simp add: nested_region_graph_def graph_simps)
  have d: "at_node nested_region_graph ([(1, 0), (1, 0)], 0)"
    by (simp add: nested_region_graph_def graph_simps)
  have e: "at_node plain_owner_graph ([(0, 0)], 0)"
    by (simp add: plain_owner_graph_def graph_simps)
  have f: "move_up nested_region_graph ([(1, 0), (1, 0)], 0) = Inr (Some ([], 2))"
    by (simp add: nested_region_graph_def run_simps graph_simps)
  from climb_owner_kind [of plain_owner_graph "[]" 0 "Node prim_Other [[Plain]]" 0 0 "([], 0)" 0] a b
  have g: "move_up plain_owner_graph ([(0, 0)], 0) = Inl ChildBlocksError"
    by simp
  have h: "next plain_owner_graph (Some ([(0, 0)], 0)) = Inl ChildBlocksError"
    using g by (simp add: plain_owner_graph_def next_def move_next_def at_def Plain_def)
  from climb_owner_kind [of nested_region_graph "[]" 0 Plain 0 0 "([(1, 0), (1, 0)], 0)" 7] c d
  have "calls nested_region_graph 7 (DepthFirstGraphNodeIterator nested_region_graph)
       \<noteq> Inl ChildBlocksError"
    by simp
  with a c d e f g h show ?thesis
    by simp
qed

text \<open>
  C10. In a well-formed graph with a non-empty root block, after construction and after
  any number of calls of \<^verbatim>\<open>next()\<close>, no call has raised and the cursor is either the
  default-constructed iterator or stands at a node of some block of the graph: its
  position is below the length of that block, never the end position.
\<close>

theorem cursor_at_node_or_exhausted:
  "wf_graph g \<Longrightarrow> g \<noteq> [] \<Longrightarrow>
     \<exists>rs c. calls g n (DepthFirstGraphNodeIterator g) = Inr (rs, c)
       \<and> (c = None \<or> (\<exists>b i ns. c = Some (b, i) \<and> nodes g b = Some ns \<and> i < length ns))"
proof -
  assume wf: "wf_graph g" and ne: "g \<noteq> []"
  from ne have "positioned g (DepthFirstGraphNodeIterator g)"
    by (simp add: DepthFirstGraphNodeIterator_def nodes_begin_def positioned_def at_node_def)
  from calls_ok [OF wf this, of n] obtain rs c where
    c: "calls g n (DepthFirstGraphNodeIterator g) = Inr (rs, c)" "positioned g c"
    by blast
  from c(2) have "c = None \<or> (\<exists>b i ns. c = Some (b, i) \<and> nodes g b = Some ns \<and> i < length ns)"
    by (cases c) (auto simp: positioned_def at_node_def split: option.splits)
  with c(1) show ?thesis by blast
qed

text \<open>
  Scenario 5 of the spec after four calls: the cursor stands at \<open>C\<close>, the only node of the
  inner body.
\<close>

theorem cursor_at_node_or_exhausted_witness:
  "wf_graph nested_region_graph \<and> nested_region_graph \<noteq> []
   \<and> calls nested_region_graph 4 (DepthFirstGraphNodeIterator nested_region_graph)
       = Inr ([Some ([], 0), Some ([], 1), Some ([(1, 0)], 0), Some ([(1, 0)], 1)],
              Some ([(1, 0), (1, 0)], 0))
   \<and> nodes nested_region_graph [(1, 0), (1, 0)] = Some [Plain]
   \<and> (\<exists>rs c. calls nested_region_graph 4 (DepthFirstGraphNodeIterator nested_region_graph)
                = Inr (rs, c)
       \<and> (c = None
          \<or> (\<exists>b i ns. c = Some (b, i) \<and> nodes nested_region_graph b = Some ns \<and> i < length ns)))"
proof -
  have a: "wf_graph nested_region_graph"
    by (simp add: nested_region_graph_def graph_simps)
  have b: "nested_region_graph \<noteq> []"
    by (simp add: nested_region_graph_def)
  have c: "calls nested_region_graph 4 (DepthFirstGraphNodeIterator nested_region_graph)
       = Inr ([Some ([], 0), Some ([], 1), Some ([(1, 0)], 0), Some ([(1, 0)], 1)],
              Some ([(1, 0), (1, 0)], 0))"
    by (simp add: nested_region_graph_def eval_nat_numeral run_simps Plain_def)
  have d: "nodes nested_region_graph [(1, 0), (1, 0)] = Some [Plain]"
    by (simp add: nested_region_graph_def Plain_def)
  from cursor_at_node_or_exhausted [OF a b, of 4] a b c d show ?thesis
    by blast
qed

end
